theory Spec2Isabelle
  imports Complex_Main "HOL-Library.AList"
begin

section \<open>Network session: correlated calls over one socket\<close>

text \<open>
  The class \<open>Network\<close> owns one socket and a set \<open>pendingResponses\<close> of endpoint names.
  The socket library is outside the repository; of it the model keeps what the class
  calls: the listeners registered with \<open>on\<close>/\<open>once\<close> (in registration order), the
  messages handed to \<open>emit\<close>, and the delivery of an incoming event to the listeners
  registered for its name. A promise is a number; the store \<open>settled\<close> records the
  value a promise was resolved with, and a promise that is not in the store is pending.
  A payload is opaque and stands as a string.
\<close>

type_synonym payload = string
type_synonym promise = nat

datatype error = Error string

datatype pvalue = Data payload | TheSocket

datatype handler =
    ResolveWith promise
  | OnConnect bool
  | OnError
  | OnDisconnect

datatype effect = ConsoleError | ErrorEventFired | Reload

record socket =
  listeners :: "(string \<times> bool \<times> handler) list"
  emitted :: "(string \<times> payload) list"
  closed :: bool

record network =
  socket :: "socket option"
  pendingResponses :: "string set"
  cleared :: bool
  connectionResolver :: "promise option"
  settled :: "(promise \<times> pvalue) list"
  fresh :: promise
  effects :: "effect list"

text \<open>The constructor: no socket, nothing pending.\<close>

definition newNetwork :: network where
  "newNetwork = \<lparr> socket = None, pendingResponses = {}, cleared = False,
     connectionResolver = None, settled = [], fresh = 0, effects = [] \<rparr>"

subsection \<open>The socket's own operations\<close>

definition removeAllListeners :: "string \<Rightarrow> socket \<Rightarrow> socket" where
  "removeAllListeners ev sock =
     sock\<lparr>listeners := filter (\<lambda>(e, _). e \<noteq> ev) (listeners sock)\<rparr>"

definition addListener :: "string \<Rightarrow> bool \<Rightarrow> handler \<Rightarrow> socket \<Rightarrow> socket" where
  "addListener ev once h sock = sock\<lparr>listeners := listeners sock @ [(ev, once, h)]\<rparr>"

definition emit :: "string \<Rightarrow> payload \<Rightarrow> socket \<Rightarrow> socket" where
  "emit ev d sock = sock\<lparr>emitted := emitted sock @ [(ev, d)]\<rparr>"

text \<open>A promise settles once: a later \<open>resolve\<close> on it changes nothing.\<close>

definition resolve :: "promise \<Rightarrow> pvalue \<Rightarrow> network \<Rightarrow> network" where
  "resolve p v s =
     (case map_of (settled s) p of
        None \<Rightarrow> s\<lparr>settled := settled s @ [(p, v)]\<rparr>
      | Some _ \<Rightarrow> s)"

definition newPromise :: "network \<Rightarrow> promise \<times> network" where
  "newPromise s = (fresh s, s\<lparr>fresh := Suc (fresh s)\<rparr>)"

subsection \<open>Connection\<close>

text \<open>
  \<open>handleConnect\<close> resolves the connection promise with the socket, installs the error
  listener and, for a required connection, the one-shot disconnect listener.
\<close>

definition handleConnect :: "bool \<Rightarrow> network \<Rightarrow> network" where
  "handleConnect required s =
     (let s1 = (case connectionResolver s of None \<Rightarrow> s | Some p \<Rightarrow> resolve p TheSocket s);
          s2 = s1\<lparr>socket := map_option (addListener ''error'' False OnError) (socket s1)\<rparr>
      in if required
         then s2\<lparr>socket := map_option (addListener ''disconnect'' True OnDisconnect) (socket s2)\<rparr>
         else s2)"

fun runHandler :: "payload \<Rightarrow> handler \<Rightarrow> network \<Rightarrow> network" where
  "runHandler d (ResolveWith p) s = resolve p (Data d) s"
| "runHandler d (OnConnect required) s = handleConnect required s"
| "runHandler d OnError s = s\<lparr>effects := effects s @ [ConsoleError, ErrorEventFired]\<rparr>"
| "runHandler d OnDisconnect s =
     (let s1 = s\<lparr>effects := effects s @ [ConsoleError, ErrorEventFired]\<rparr>
      in if \<not> cleared s1 then s1\<lparr>effects := effects s1 @ [Reload]\<rparr> else s1)"

text \<open>
  An event arriving on the socket: the listeners registered for its name run in
  registration order, and the one-shot ones are removed.
\<close>

definition deliver :: "string \<Rightarrow> payload \<Rightarrow> network \<Rightarrow> network" where
  "deliver ev d s =
     (case socket s of
        None \<Rightarrow> s
      | Some sock \<Rightarrow>
          (let hs = map (\<lambda>(e, once, h). h) (filter (\<lambda>(e, _). e = ev) (listeners sock));
               sock' = sock\<lparr>listeners :=
                         filter (\<lambda>(e, once, h). \<not> (e = ev \<and> once)) (listeners sock)\<rparr>
           in fold (runHandler d) hs (s\<lparr>socket := Some sock'\<rparr>)))"

text \<open>
  \<open>createSocketConnection\<close>: with a socket already there the returned promise resolves
  with it at once; otherwise the socket is created with a listener for \<open>connect\<close>. The
  query string only parametrises the library's connection and is left out.
\<close>

definition createSocketConnection :: "bool \<Rightarrow> network \<Rightarrow> promise \<times> network" where
  "createSocketConnection required s =
     (let (p, s1) = newPromise s
      in case socket s1 of
           Some sock \<Rightarrow> (p, resolve p TheSocket s1)
         | None \<Rightarrow>
             (p, s1\<lparr>connectionResolver := Some p,
                    socket := Some (addListener ''connect'' False (OnConnect required)
                                     \<lparr>listeners = [], emitted = [], closed = False\<rparr>)\<rparr>))"

definition disconnect :: "network \<Rightarrow> network" where
  "disconnect s =
     (let s1 = s\<lparr>cleared := True\<rparr>
      in s1\<lparr>socket := map_option (\<lambda>sock. sock\<lparr>closed := True\<rparr>) (socket s1)\<rparr>)"

subsection \<open>Correlated call and passive wait\<close>

text \<open>
  An \<open>async\<close> method that throws returns a promise that is already rejected: the result
  \<open>Inl\<close>. Otherwise it returns the promise \<open>Inr p\<close>, pending until the listener resolves
  it. A response endpoint that is undefined (\<open>None\<close>) or the empty string is falsy and
  defaults to the emitted endpoint.
\<close>

definition defaultResponseEndpoint :: "string \<Rightarrow> string option \<Rightarrow> string" where
  "defaultResponseEndpoint endpoint responseEndpoint =
     (case responseEndpoint of
        None \<Rightarrow> endpoint
      | Some x \<Rightarrow> if x = [] then endpoint else x)"

definition emitAndAwaitResponse ::
  "string \<Rightarrow> payload \<Rightarrow> string option \<Rightarrow> network \<Rightarrow> (error + promise) \<times> network" where
  "emitAndAwaitResponse endpoint sentData responseEndpoint s =
     (case socket s of
        None \<Rightarrow> (Inl (Error ''No socket installed.''), s)
      | Some sock \<Rightarrow>
          (let r = defaultResponseEndpoint endpoint responseEndpoint
           in if endpoint \<in> pendingResponses s \<or> r \<in> pendingResponses s
              then (Inl (Error ''Listener already installed.''), s)
              else
                (let s1 = s\<lparr>pendingResponses := insert r (insert endpoint (pendingResponses s))\<rparr>;
                     sock1 = removeAllListeners r (removeAllListeners endpoint sock);
                     (p, s2) = newPromise s1;
                     sock2 = addListener r True (ResolveWith p) sock1;
                     sock3 = emit endpoint sentData sock2
                 in (Inr p, s2\<lparr>socket := Some sock3\<rparr>))))"

definition waitForMessage :: "string \<Rightarrow> network \<Rightarrow> (error + promise) \<times> network" where
  "waitForMessage endpoint s =
     (case socket s of
        None \<Rightarrow> (Inl (Error ''No socket installed.''), s)
      | Some sock \<Rightarrow>
          if endpoint \<in> pendingResponses s
          then (Inl (Error ''Listener already installed.''), s)
          else
            (let s1 = s\<lparr>pendingResponses := insert endpoint (pendingResponses s)\<rparr>;
                 sock1 = removeAllListeners endpoint sock;
                 (p, s2) = newPromise s1;
                 sock2 = addListener endpoint True (ResolveWith p) sock1
             in (Inr p, s2\<lparr>socket := Some sock2\<rparr>)))"

text \<open>Everything that can happen to a session between two calls.\<close>

datatype netop =
    EmitAndAwait string payload "string option"
  | WaitFor string
  | Deliver string payload
  | Connect bool
  | Disconnect

fun netstep :: "netop \<Rightarrow> network \<Rightarrow> network" where
  "netstep (EmitAndAwait e d r) s = snd (emitAndAwaitResponse e d r s)"
| "netstep (WaitFor e) s = snd (waitForMessage e s)"
| "netstep (Deliver e d) s = deliver e d s"
| "netstep (Connect required) s = snd (createSocketConnection required s)"
| "netstep Disconnect s = disconnect s"

definition netrun :: "netop list \<Rightarrow> network \<Rightarrow> network" where
  "netrun ops s = fold netstep ops s"

text \<open>
  A session for the examples: the constructor, then \<open>createSocketConnection\<close>, then the
  socket's \<open>connect\<close> event.
\<close>

definition connectedNetwork :: network where
  "connectedNetwork = deliver ''connect'' [] (snd (createSocketConnection False newNetwork))"

text \<open>
  Promise numbers are handed out in order. In a session that grew from the constructor,
  every promise that was settled, that the connection waits to resolve, or that a
  listener will resolve, has been handed out before.
\<close>

definition handlerAllocated :: "promise \<Rightarrow> handler \<Rightarrow> bool" where
  "handlerAllocated n h = (case h of ResolveWith p \<Rightarrow> p < n | _ \<Rightarrow> True)"

definition promisesAllocated :: "network \<Rightarrow> bool" where
  "promisesAllocated s =
     (list_all (\<lambda>(p, v). p < fresh s) (settled s)
      \<and> (case connectionResolver s of None \<Rightarrow> True | Some p \<Rightarrow> p < fresh s)
      \<and> (case socket s of
            None \<Rightarrow> True
          | Some sock \<Rightarrow> list_all (\<lambda>(ev, once, h). handlerAllocated (fresh s) h) (listeners sock)))"

section \<open>Entity action state\<close>

text \<open>
  A JavaScript object used as a dictionary is an association list in insertion order:
  assigning to a key that is present keeps its place, assigning to a new key appends
  it, \<open>delete\<close> removes it. Reading a key that is absent yields \<open>undefined\<close>, here
  \<open>None\<close>. Numbers are the finite ones, taken as reals; among them exactly \<open>0\<close> is
  falsy.
\<close>

type_synonym jsobject = "(string \<times> real) list"

definition truthy :: "real option \<Rightarrow> bool" where
  "truthy x = (case x of None \<Rightarrow> False | Some v \<Rightarrow> v \<noteq> 0)"

text \<open>
  The game that owns an entity is outside the repository. Of \<open>parentGame.sendInput\<close> the
  model keeps the call itself: each call appends the entity's input state, as it is at
  the call, to the log \<open>sentInputs\<close>.
\<close>

record inputMessage =
  sentActions :: jsobject
  sentMouseMovement :: "real \<times> real"
  sentInputDevice :: string

record entity =
  actions :: jsobject
  inputDevice :: string
  mouseMovement :: "real \<times> real"
  sentInputs :: "inputMessage list"

record binding =
  binding_id :: string

definition newEntity :: entity where
  "newEntity = \<lparr> actions = [], inputDevice = ''keyboard'', mouseMovement = (0, 0),
     sentInputs = [] \<rparr>"

definition sendInput :: "entity \<Rightarrow> entity" where
  "sendInput e = e\<lparr>sentInputs := sentInputs e @
     [\<lparr> sentActions = actions e, sentMouseMovement = mouseMovement e,
        sentInputDevice = inputDevice e \<rparr>]\<rparr>"

definition clearInput :: "entity \<Rightarrow> entity" where
  "clearInput e = sendInput (e\<lparr>actions := [], mouseMovement := (0, 0)\<rparr>)"

definition setAction :: "string \<Rightarrow> real \<Rightarrow> entity \<Rightarrow> entity" where
  "setAction action val e =
     (if truthy (map_of (actions e) action) \<and> map_of (actions e) action = Some val
      then e
      else sendInput
        (if val \<noteq> 0
         then e\<lparr>actions := AList.update action val (actions e)\<rparr>
         else e\<lparr>actions := AList.delete action (actions e)\<rparr>))"

definition getForce :: "binding \<Rightarrow> entity \<Rightarrow> real" where
  "getForce b e =
     (case map_of (actions e) (binding_id b) of
        None \<Rightarrow> 0
      | Some v \<Rightarrow> if v \<noteq> 0 then v else 0)"

datatype entityop = SetAction string real | ClearInput

fun entitystep :: "entityop \<Rightarrow> entity \<Rightarrow> entity" where
  "entitystep (SetAction a v) e = setAction a v e"
| "entitystep ClearInput e = clearInput e"

definition entityrun :: "entityop list \<Rightarrow> entity \<Rightarrow> entity" where
  "entityrun ops e = fold entitystep ops e"

section \<open>Controls: controller polling and registration\<close>

text \<open>
  The keys of a raw controller frame are the template strings \<open>axes0\<close>, \<open>axes1\<close>, ...
  and \<open>button0\<close>, \<open>button1\<close>, ...: a prefix followed by the index in decimal.
\<close>

definition digitChar :: "nat \<Rightarrow> char" where
  "digitChar d = ''0123456789'' ! d"

function showNat :: "nat \<Rightarrow> string" where
  "showNat n = (if n < 10 then [digitChar n] else showNat (n div 10) @ [digitChar (n mod 10)])"
  by pat_completeness auto
termination
  by (relation "measure id") auto

declare showNat.simps [simp del]

definition axesKey :: "nat \<Rightarrow> string" where
  "axesKey i = ''axes'' @ showNat i"

definition buttonKey :: "nat \<Rightarrow> string" where
  "buttonKey i = ''button'' @ showNat i"

text \<open>
  The gamepad read at a tick: the axis values and the values of the buttons. What is
  registered with the controls is any object: it has a \<open>uuid\<close>, and may lack the
  \<open>actions\<close> container.
\<close>

record gamepad =
  axes :: "real list"
  buttons :: "real list"

record registrant =
  uuid :: string
  actionContainer :: "jsobject option"

datatype jsexception = TypeError

record controls =
  previousInput :: jsobject
  registeredEntities :: "(string \<times> registrant) list"
  controlsEnabled :: bool
  hasController :: bool
  movementDeadzone :: real
  consoleErrors :: "string list"

definition newControls :: "real \<Rightarrow> controls" where
  "newControls deadzone = \<lparr> previousInput = [], registeredEntities = [],
     controlsEnabled = True, hasController = False, movementDeadzone = deadzone,
     consoleErrors = [] \<rparr>"

definition startPollingController :: "controls \<Rightarrow> controls" where
  "startPollingController c = (if \<not> hasController c then c\<lparr>hasController := True\<rparr> else c)"

definition stopPollingController :: "controls \<Rightarrow> controls" where
  "stopPollingController c = c\<lparr>hasController := False\<rparr>"

text \<open>The first loop: the flag is raised by any axis beyond the deadzone.\<close>

definition isOutOfDeadzone :: "real \<Rightarrow> real list \<Rightarrow> bool" where
  "isOutOfDeadzone deadzone vals =
     fold (\<lambda>val flag. if \<bar>val\<bar> > deadzone then True else flag) vals False"

text \<open>The second loop: every axis, reversed, or zero when the flag is down.\<close>

definition axesLoop :: "bool \<Rightarrow> real list \<Rightarrow> jsobject \<Rightarrow> jsobject" where
  "axesLoop out vals input =
     fold (\<lambda>i inp. AList.update (axesKey i) (if out then - (vals ! i) else 0) inp)
       [0 ..< length vals] input"

text \<open>The third loop: every button, zero when within the deadzone.\<close>

definition buttonsLoop :: "real \<Rightarrow> real list \<Rightarrow> jsobject \<Rightarrow> jsobject" where
  "buttonsLoop deadzone vals input =
     fold (\<lambda>i inp. AList.update (buttonKey i)
                      (if \<bar>vals ! i\<bar> > deadzone then vals ! i else 0) inp)
       [0 ..< length vals] input"

definition rawFrame :: "real \<Rightarrow> gamepad \<Rightarrow> jsobject" where
  "rawFrame deadzone pad =
     buttonsLoop deadzone (buttons pad)
       (axesLoop (isOutOfDeadzone deadzone (axes pad)) (axes pad) [])"

text \<open>
  The last loop runs over the keys the frame had when the loop started and deletes a
  zero whose key had no value in the previous frame.
\<close>

definition previousHadValue :: "jsobject \<Rightarrow> string \<Rightarrow> bool" where
  "previousHadValue prev key = (truthy (map_of prev key) \<and> map_of prev key \<noteq> Some 0)"

definition dropRepeatedZeros :: "jsobject \<Rightarrow> jsobject \<Rightarrow> jsobject" where
  "dropRepeatedZeros prev input =
     fold (\<lambda>key inp. if map_of inp key = Some 0 \<and> \<not> previousHadValue prev key
                      then AList.delete key inp else inp)
       (map fst input) input"

definition getRawControllerInput :: "gamepad \<Rightarrow> controls \<Rightarrow> jsobject \<times> controls" where
  "getRawControllerInput pad c =
     (let input = (if hasController c
                   then dropRepeatedZeros (previousInput c) (rawFrame (movementDeadzone c) pad)
                   else [])
      in (input, c\<lparr>previousInput := input\<rparr>))"

text \<open>
  \<open>registerEntity\<close>: the argument may be missing altogether (\<open>None\<close>). After the
  report on the console the method goes on to read \<open>entity.uuid\<close>, which throws for a
  missing argument.
\<close>

definition registerEntity :: "registrant option \<Rightarrow> controls \<Rightarrow> jsexception option \<times> controls" where
  "registerEntity entity c =
     (let c1 = (if entity = None \<or> Option.bind entity actionContainer = None
                then c\<lparr>consoleErrors := consoleErrors c @ [''Must pass in an entity'']\<rparr>
                else c)
      in case entity of
           None \<Rightarrow> (Some TypeError, c1)
         | Some ent \<Rightarrow>
             (None, c1\<lparr>registeredEntities :=
                         AList.update (uuid ent) ent (registeredEntities c1)\<rparr>))"

text \<open>Controls for the examples: a deadzone of 0.5 and a controller connected.\<close>

definition pollingControls :: controls where
  "pollingControls = startPollingController (newControls 0.5)"

section \<open>Plain HTTP calls\<close>

text \<open>
  A request that has come back: its status and the text of its body. \<open>JSON.parse\<close> is
  the platform's; the model takes it as the parameter \<open>parse\<close>, which is \<open>None\<close> where
  it throws. The outcome of the returned promise is resolved, rejected, or left unsettled
  when the listener itself throws.
\<close>

datatype json =
    JNull
  | JBool bool
  | JNum real
  | JStr string
  | JArr "json list"
  | JObj "(string \<times> json) list"

record xhr =
  status :: nat
  responseText :: string

datatype xhrEvent = Load | NetworkError

text \<open>\<open>new Error(message)\<close>, with the argument as it was passed; \<open>None\<close> is \<open>undefined\<close>.\<close>

datatype httpError = HttpError "json option"

datatype outcome = Resolved json | Rejected httpError | Unsettled

text \<open>
  Reading \<open>.message\<close>: a field of an object, \<open>undefined\<close> on any other value except
  \<open>null\<close>, where the read throws and the \<open>catch\<close> takes the body text instead, as it
  does when the body does not parse.
\<close>

definition createError :: "(string \<Rightarrow> json option) \<Rightarrow> xhr \<Rightarrow> httpError" where
  "createError parse req =
     (case parse (responseText req) of
        None \<Rightarrow> HttpError (Some (JStr (responseText req)))
      | Some JNull \<Rightarrow> HttpError (Some (JStr (responseText req)))
      | Some (JObj props) \<Rightarrow> HttpError (map_of props ''message'')
      | Some _ \<Rightarrow> HttpError None)"

definition createPostRequest :: "(string \<Rightarrow> json option) \<Rightarrow> xhrEvent \<Rightarrow> xhr \<Rightarrow> outcome" where
  "createPostRequest parse ev req =
     (case ev of
        Load \<Rightarrow>
          if status req = 200 \<or> status req = 304
          then (case parse (responseText req) of
                  Some response \<Rightarrow> Resolved response
                | None \<Rightarrow> Unsettled)
          else Rejected (createError parse req)
      | NetworkError \<Rightarrow> Rejected (createError parse req))"

definition createGetRequest :: "(string \<Rightarrow> json option) \<Rightarrow> xhrEvent \<Rightarrow> xhr \<Rightarrow> outcome" where
  "createGetRequest parse ev req =
     (case ev of
        Load \<Rightarrow>
          if status req = 200
          then (case parse (responseText req) of
                  Some response \<Rightarrow> Resolved response
                | None \<Rightarrow> Unsettled)
          else Rejected (createError parse req)
      | NetworkError \<Rightarrow> Rejected (createError parse req))"

definition createDeleteRequest :: "(string \<Rightarrow> json option) \<Rightarrow> xhrEvent \<Rightarrow> xhr \<Rightarrow> outcome" where
  "createDeleteRequest parse ev req =
     (case ev of
        Load \<Rightarrow>
          if status req = 200
          then (case parse (responseText req) of
                  Some response \<Rightarrow> Resolved response
                | None \<Rightarrow> Unsettled)
          else Rejected (createError parse req)
      | NetworkError \<Rightarrow> Rejected (createError parse req))"

text \<open>
  For the examples: two bodies a server may send, and what \<open>JSON.parse\<close> makes of
  them; a text outside the table stands for one that does not parse.
\<close>

definition goneBody :: string where
  \<open>goneBody = ''{"message":"gone"}''\<close>

definition parseTable :: "string \<Rightarrow> json option" where
  "parseTable = map_of [(''{}'', JObj []), (goneBody, JObj [(''message'', JStr ''gone'')])]"

section \<open>Physics snapshots\<close>




subsection \<open>The platform's \<open>toFixed\<close>\<close>







subsection \<open>Encoding and decoding\<close>












section \<open>Properties of the network session\<close>

subsection \<open>What the operations keep\<close>

lemma resolve_socket [simp]: "socket (resolve p v s) = socket s"
  by (simp add: resolve_def split: option.splits)

lemma resolve_pending [simp]: "pendingResponses (resolve p v s) = pendingResponses s"
  by (simp add: resolve_def split: option.splits)

lemma handleConnect_pending [simp]:
  "pendingResponses (handleConnect required s) = pendingResponses s"
  by (simp add: handleConnect_def Let_def split: option.splits)

lemma handleConnect_socket:
  "socket s \<noteq> None \<Longrightarrow> socket (handleConnect required s) \<noteq> None"
  by (simp add: handleConnect_def Let_def split: option.splits)

lemma runHandler_pending [simp]:
  "pendingResponses (runHandler d h s) = pendingResponses s"
  by (cases h) (simp_all add: Let_def)

lemma runHandler_socket:
  "socket s \<noteq> None \<Longrightarrow> socket (runHandler d h s) \<noteq> None"
  by (cases h) (simp_all add: Let_def handleConnect_socket)

lemma fold_runHandler_pending [simp]:
  "pendingResponses (fold (runHandler d) hs s) = pendingResponses s"
  by (induction hs arbitrary: s) simp_all

lemma fold_runHandler_socket:
  "socket s \<noteq> None \<Longrightarrow> socket (fold (runHandler d) hs s) \<noteq> None"
proof (induction hs arbitrary: s)
  case Nil
  then show ?case by simp
next
  case (Cons h hs)
  have "socket (runHandler d h s) \<noteq> None"
    using Cons.prems by (rule runHandler_socket)
  then have "socket (fold (runHandler d) hs (runHandler d h s)) \<noteq> None"
    by (rule Cons.IH)
  then show ?case by simp
qed

lemma deliver_pending [simp]: "pendingResponses (deliver ev d s) = pendingResponses s"
  by (simp add: deliver_def Let_def split: option.splits)

lemma deliver_socket:
  assumes "socket s \<noteq> None"
  shows "socket (deliver ev d s) \<noteq> None"
proof (cases "socket s")
  case None
  then show ?thesis using assms by simp
next
  case (Some sock)
  have "socket (fold (runHandler d) hs (s\<lparr>socket := Some sock'\<rparr>)) \<noteq> None" for hs sock'
    by (rule fold_runHandler_socket) simp
  then show ?thesis using Some by (simp add: deliver_def Let_def)
qed

lemma emitAndAwaitResponse_pending_mono:
  "x \<in> pendingResponses s \<Longrightarrow> x \<in> pendingResponses (snd (emitAndAwaitResponse e d r s))"
  by (simp add: emitAndAwaitResponse_def newPromise_def Let_def split: option.splits)

lemma emitAndAwaitResponse_socket:
  "socket s \<noteq> None \<Longrightarrow> socket (snd (emitAndAwaitResponse e d r s)) \<noteq> None"
  by (auto simp add: emitAndAwaitResponse_def newPromise_def Let_def split: option.splits)

lemma waitForMessage_pending_mono:
  "x \<in> pendingResponses s \<Longrightarrow> x \<in> pendingResponses (snd (waitForMessage e s))"
  by (simp add: waitForMessage_def newPromise_def Let_def split: option.splits)

lemma waitForMessage_socket:
  "socket s \<noteq> None \<Longrightarrow> socket (snd (waitForMessage e s)) \<noteq> None"
  by (auto simp add: waitForMessage_def newPromise_def Let_def split: option.splits)

lemma createSocketConnection_pending [simp]:
  "pendingResponses (snd (createSocketConnection required s)) = pendingResponses s"
  by (simp add: createSocketConnection_def newPromise_def Let_def split: option.splits)

lemma createSocketConnection_socket:
  "socket (snd (createSocketConnection required s)) \<noteq> None"
  by (simp add: createSocketConnection_def newPromise_def Let_def split: option.splits)

lemma disconnect_pending [simp]: "pendingResponses (disconnect s) = pendingResponses s"
  by (simp add: disconnect_def Let_def)

lemma disconnect_socket: "socket s \<noteq> None \<Longrightarrow> socket (disconnect s) \<noteq> None"
  by (simp add: disconnect_def Let_def)

text \<open>No operation takes the socket away or takes an endpoint out of the registry.\<close>

lemma netstep_keeps:
  "socket s \<noteq> None \<and> x \<in> pendingResponses s \<Longrightarrow>
     socket (netstep a s) \<noteq> None \<and> x \<in> pendingResponses (netstep a s)"
  by (cases a)
     (simp_all add: emitAndAwaitResponse_pending_mono emitAndAwaitResponse_socket
        waitForMessage_pending_mono waitForMessage_socket deliver_socket
        createSocketConnection_socket disconnect_socket)

lemma netrun_keeps:
  "socket s \<noteq> None \<and> x \<in> pendingResponses s \<Longrightarrow>
     socket (netrun ops s) \<noteq> None \<and> x \<in> pendingResponses (netrun ops s)"
  unfolding netrun_def
proof (induction ops arbitrary: s)
  case Nil
  then show ?case by simp
next
  case (Cons a ops)
  from Cons.prems have "socket (netstep a s) \<noteq> None \<and> x \<in> pendingResponses (netstep a s)"
    by (rule netstep_keeps)
  then show ?case using Cons.IH by simp
qed

lemma emitAndAwaitResponse_success:
  assumes "emitAndAwaitResponse e d r s = (Inr p, s1)"
  shows "socket s1 \<noteq> None" and "e \<in> pendingResponses s1"
  using assms
  by (auto simp add: emitAndAwaitResponse_def newPromise_def Let_def
      split: option.splits if_splits)

lemma already_installed:
  assumes "socket s \<noteq> None" and "e \<in> pendingResponses s"
  shows "emitAndAwaitResponse e d r s = (Inl (Error ''Listener already installed.''), s)"
    and "waitForMessage e s = (Inl (Error ''Listener already installed.''), s)"
  using assms
  by (auto simp add: emitAndAwaitResponse_def waitForMessage_def split: option.splits)

text \<open>
  The listener a successful call installs is the only one on its response endpoint, so
  the next message there resolves the call's promise with the message.
\<close>

lemma first_call_resolves:
  assumes call: "emitAndAwaitResponse e d r s = (Inr p, s1)"
    and unsettled: "map_of (settled s) (fresh s) = None"
  shows "map_of (settled (deliver (defaultResponseEndpoint e r) x s1)) p = Some (Data x)"
proof -
  obtain sock where sock: "socket s = Some sock"
    using call by (cases "socket s") (simp_all add: emitAndAwaitResponse_def)
  let ?r = "defaultResponseEndpoint e r"
  have p: "p = fresh s"
    using call sock
    by (simp add: emitAndAwaitResponse_def newPromise_def Let_def split: if_splits)
  have st: "settled s1 = settled s"
    using call sock
    by (auto simp add: emitAndAwaitResponse_def newPromise_def Let_def split: if_splits)
  obtain sock1 where s1: "socket s1 = Some sock1"
    and ls: "listeners sock1 =
       filter (\<lambda>(e, _). e \<noteq> ?r) (filter (\<lambda>(e', _). e' \<noteq> e) (listeners sock))
         @ [(?r, True, ResolveWith p)]"
    using call sock
    by (auto simp add: emitAndAwaitResponse_def newPromise_def Let_def emit_def
        addListener_def removeAllListeners_def split: if_splits)
  have hs: "map (\<lambda>(e, once, h). h) (filter (\<lambda>(e, _). e = ?r) (listeners sock1))
              = [ResolveWith p]"
    by (auto simp add: ls filter_empty_conv)
  show ?thesis
    using unsettled
    by (simp add: deliver_def s1 hs Let_def resolve_def st p map_add_def)
qed

subsection \<open>Promises are handed out in order\<close>

lemma handlerAllocated_simps [simp]:
  "handlerAllocated n (ResolveWith p) = (p < n)"
  "handlerAllocated n (OnConnect required) = True"
  "handlerAllocated n OnError = True"
  "handlerAllocated n OnDisconnect = True"
  by (simp_all add: handlerAllocated_def)

lemma handlerAllocated_mono: "handlerAllocated n h \<Longrightarrow> handlerAllocated (Suc n) h"
  by (cases h) simp_all

lemma allocated_unsettled:
  assumes "promisesAllocated s"
  shows "map_of (settled s) (fresh s) = None"
proof -
  have "list_all (\<lambda>(p, v). p < fresh s) (settled s)"
    using assms by (simp add: promisesAllocated_def)
  then have "fresh s \<notin> fst ` set (settled s)"
    by (auto simp add: list_all_iff)
  then show ?thesis
    by (simp add: map_of_eq_None_iff)
qed

lemma newNetwork_allocated: "promisesAllocated newNetwork"
  by (simp add: promisesAllocated_def newNetwork_def)

lemma resolve_fresh [simp]: "fresh (resolve p v s) = fresh s"
  by (simp add: resolve_def split: option.splits)

lemma resolve_allocated:
  "promisesAllocated s \<Longrightarrow> p < fresh s \<Longrightarrow> promisesAllocated (resolve p v s)"
  by (simp add: promisesAllocated_def resolve_def split: option.splits)

lemma handleConnect_fresh [simp]: "fresh (handleConnect required s) = fresh s"
  by (simp add: handleConnect_def Let_def split: option.splits)

lemma handleConnect_allocated:
  "promisesAllocated s \<Longrightarrow> promisesAllocated (handleConnect required s)"
  by (auto simp add: promisesAllocated_def handleConnect_def resolve_def addListener_def
      Let_def split: option.splits)

lemma runHandler_fresh [simp]: "fresh (runHandler d h s) = fresh s"
  by (cases h) (simp_all add: Let_def)

lemma runHandler_allocated:
  "promisesAllocated s \<Longrightarrow> handlerAllocated (fresh s) h \<Longrightarrow>
     promisesAllocated (runHandler d h s)"
proof (cases h)
  case (ResolveWith p)
  assume "promisesAllocated s" "handlerAllocated (fresh s) h"
  then show ?thesis
    using ResolveWith by (simp add: resolve_allocated)
next
  case (OnConnect required)
  assume "promisesAllocated s"
  then show ?thesis
    using OnConnect by (simp add: handleConnect_allocated)
next
  case OnError
  assume "promisesAllocated s"
  then show ?thesis
    using OnError by (simp add: promisesAllocated_def split: option.splits)
next
  case OnDisconnect
  assume "promisesAllocated s"
  then show ?thesis
    using OnDisconnect by (simp add: promisesAllocated_def Let_def split: option.splits)
qed

lemma fold_runHandler_allocated:
  "promisesAllocated s \<Longrightarrow> list_all (handlerAllocated (fresh s)) hs \<Longrightarrow>
     promisesAllocated (fold (runHandler d) hs s)"
proof (induction hs arbitrary: s)
  case Nil
  then show ?case by simp
next
  case (Cons h hs)
  have "promisesAllocated (runHandler d h s)"
    using Cons.prems by (simp add: runHandler_allocated)
  moreover have "list_all (handlerAllocated (fresh (runHandler d h s))) hs"
    using Cons.prems by simp
  ultimately have "promisesAllocated (fold (runHandler d) hs (runHandler d h s))"
    by (rule Cons.IH)
  then show ?case by simp
qed

lemma deliver_allocated:
  assumes "promisesAllocated s"
  shows "promisesAllocated (deliver ev d s)"
proof (cases "socket s")
  case None
  then show ?thesis using assms by (simp add: deliver_def)
next
  case (Some sock)
  let ?s' = "s\<lparr>socket := Some (sock\<lparr>listeners :=
               filter (\<lambda>(e, once, h). \<not> (e = ev \<and> once)) (listeners sock)\<rparr>)\<rparr>"
  let ?hs = "map (\<lambda>(e, once, h). h) (filter (\<lambda>(e, _). e = ev) (listeners sock))"
  have ls: "list_all (\<lambda>(ev, once, h). handlerAllocated (fresh s) h) (listeners sock)"
    using assms Some by (simp add: promisesAllocated_def)
  have a: "promisesAllocated ?s'"
    using assms Some ls by (auto simp add: promisesAllocated_def list_all_iff split: option.splits)
  have b: "list_all (handlerAllocated (fresh ?s')) ?hs"
    using ls by (auto simp add: list_all_iff)
  have "promisesAllocated (fold (runHandler d) ?hs ?s')"
    using a b by (rule fold_runHandler_allocated)
  then show ?thesis
    using Some by (simp add: deliver_def Let_def)
qed

lemma list_all_fresh_mono:
  "list_all (\<lambda>(p, v). p < n) xs \<Longrightarrow> list_all (\<lambda>(p, v). p < Suc n) xs"
  by (auto simp add: list_all_iff)

lemma handlers_fresh_mono:
  "list_all (\<lambda>(ev, once, h). handlerAllocated n h) xs \<Longrightarrow>
     list_all (\<lambda>(ev, once, h). handlerAllocated (Suc n) h) xs"
  by (auto simp add: list_all_iff handlerAllocated_mono)

lemma emitAndAwaitResponse_allocated:
  assumes "promisesAllocated s"
  shows "promisesAllocated (snd (emitAndAwaitResponse e d r s))"
proof (cases "socket s")
  case None
  then show ?thesis using assms by (simp add: emitAndAwaitResponse_def)
next
  case (Some sock)
  have st: "list_all (\<lambda>(p, v). p < Suc (fresh s)) (settled s)"
    using assms by (simp add: promisesAllocated_def list_all_fresh_mono)
  have cr: "case connectionResolver s of None \<Rightarrow> True | Some p \<Rightarrow> p < Suc (fresh s)"
    using assms by (auto simp add: promisesAllocated_def split: option.splits)
  have ls: "list_all (\<lambda>(ev, once, h). handlerAllocated (Suc (fresh s)) h) (listeners sock)"
    using assms Some by (simp add: promisesAllocated_def handlers_fresh_mono)
  then have ls': "list_all (\<lambda>(ev, once, h). handlerAllocated (Suc (fresh s)) h)
                    (filter P (listeners sock))" for P
    by (auto simp add: list_all_iff)
  show ?thesis
    using Some assms st cr ls'
    by (simp add: emitAndAwaitResponse_def newPromise_def Let_def promisesAllocated_def
        addListener_def removeAllListeners_def emit_def
        split: option.splits)
qed

lemma waitForMessage_allocated:
  assumes "promisesAllocated s"
  shows "promisesAllocated (snd (waitForMessage e s))"
proof (cases "socket s")
  case None
  then show ?thesis using assms by (simp add: waitForMessage_def)
next
  case (Some sock)
  have st: "list_all (\<lambda>(p, v). p < Suc (fresh s)) (settled s)"
    using assms by (simp add: promisesAllocated_def list_all_fresh_mono)
  have cr: "case connectionResolver s of None \<Rightarrow> True | Some p \<Rightarrow> p < Suc (fresh s)"
    using assms by (auto simp add: promisesAllocated_def split: option.splits)
  have ls: "list_all (\<lambda>(ev, once, h). handlerAllocated (Suc (fresh s)) h) (listeners sock)"
    using assms Some by (simp add: promisesAllocated_def handlers_fresh_mono)
  then have ls': "list_all (\<lambda>(ev, once, h). handlerAllocated (Suc (fresh s)) h)
                    (filter P (listeners sock))" for P
    by (auto simp add: list_all_iff)
  show ?thesis
    using Some assms st cr ls'
    by (simp add: waitForMessage_def newPromise_def Let_def promisesAllocated_def
        addListener_def removeAllListeners_def
        split: option.splits)
qed

lemma createSocketConnection_allocated:
  assumes "promisesAllocated s"
  shows "promisesAllocated (snd (createSocketConnection required s))"
proof -
  have st: "list_all (\<lambda>(p, v). p < Suc (fresh s)) (settled s)"
    using assms by (simp add: promisesAllocated_def list_all_fresh_mono)
  have cr: "case connectionResolver s of None \<Rightarrow> True | Some p \<Rightarrow> p < Suc (fresh s)"
    using assms by (auto simp add: promisesAllocated_def split: option.splits)
  show ?thesis
  proof (cases "socket s")
    case None
    then show ?thesis
      using st
      by (simp add: createSocketConnection_def newPromise_def promisesAllocated_def
          addListener_def split: option.splits)
  next
    case (Some sock)
    have ls: "list_all (\<lambda>(ev, once, h). handlerAllocated (Suc (fresh s)) h) (listeners sock)"
      using assms Some by (simp add: promisesAllocated_def handlers_fresh_mono)
    have "promisesAllocated (s\<lparr>fresh := Suc (fresh s)\<rparr>)"
      using Some st cr ls by (simp add: promisesAllocated_def split: option.splits)
    then have "promisesAllocated (resolve (fresh s) TheSocket (s\<lparr>fresh := Suc (fresh s)\<rparr>))"
      by (rule resolve_allocated) simp
    then show ?thesis
      using Some by (simp add: createSocketConnection_def newPromise_def)
  qed
qed

lemma disconnect_allocated:
  "promisesAllocated s \<Longrightarrow> promisesAllocated (disconnect s)"
  by (auto simp add: promisesAllocated_def disconnect_def Let_def split: option.splits)

lemma netstep_allocated: "promisesAllocated s \<Longrightarrow> promisesAllocated (netstep a s)"
  by (cases a)
     (simp_all add: emitAndAwaitResponse_allocated waitForMessage_allocated deliver_allocated
        createSocketConnection_allocated disconnect_allocated)

lemma netrun_allocated: "promisesAllocated s \<Longrightarrow> promisesAllocated (netrun ops s)"
  unfolding netrun_def
  by (induction ops arbitrary: s) (simp_all add: netstep_allocated)

lemmas network_eval =
  emitAndAwaitResponse_def waitForMessage_def createSocketConnection_def newNetwork_def
  newPromise_def defaultResponseEndpoint_def addListener_def removeAllListeners_def
  emit_def deliver_def resolve_def handleConnect_def disconnect_def connectedNetwork_def
  netrun_def Let_def

subsection \<open>Correlation exclusivity\<close>

text \<open>
  C1. Take any session that grew from the constructor. Once \<open>emitAndAwaitResponse\<close>
  on an endpoint has been issued in it, a second call on that endpoint, whatever its
  payload and response endpoint, fails at once with the error "Listener already
  installed." and leaves the session as it was (nothing is queued). The first call is
  not disturbed: after the failed call, the next message on the first call's response
  endpoint still resolves the first call's promise with that message.
\<close>

theorem second_call_fails_first_unaltered:
  assumes "emitAndAwaitResponse e d r (netrun ops newNetwork) = (Inr p, s1)"
  shows "emitAndAwaitResponse e d2 r2 s1 = (Inl (Error ''Listener already installed.''), s1)
       \<and> map_of (settled (deliver (defaultResponseEndpoint e r) x
                            (snd (emitAndAwaitResponse e d2 r2 s1)))) p
           = Some (Data x)"
proof -
  have second: "emitAndAwaitResponse e d2 r2 s1 = (Inl (Error ''Listener already installed.''), s1)"
    using assms by (intro already_installed emitAndAwaitResponse_success)
  have "promisesAllocated (netrun ops newNetwork)"
    by (intro netrun_allocated newNetwork_allocated)
  then have "map_of (settled (netrun ops newNetwork)) (fresh (netrun ops newNetwork)) = None"
    by (rule allocated_unsettled)
  with assms have "map_of (settled (deliver (defaultResponseEndpoint e r) x s1)) p = Some (Data x)"
    by (rule first_call_resolves)
  then show ?thesis
    by (simp add: second)
qed

theorem second_call_fails_first_unaltered_witness:
  "fst (emitAndAwaitResponse ''ping'' ''a'' None
          (netrun [Connect False, Deliver ''connect'' []] newNetwork)) = Inr 1
   \<and> emitAndAwaitResponse ''ping'' ''b'' None
        (snd (emitAndAwaitResponse ''ping'' ''a'' None
               (netrun [Connect False, Deliver ''connect'' []] newNetwork)))
     = (Inl (Error ''Listener already installed.''),
        snd (emitAndAwaitResponse ''ping'' ''a'' None
               (netrun [Connect False, Deliver ''connect'' []] newNetwork)))
   \<and> map_of (settled (deliver ''ping'' ''pong''
        (snd (emitAndAwaitResponse ''ping'' ''b'' None
          (snd (emitAndAwaitResponse ''ping'' ''a'' None
                 (netrun [Connect False, Deliver ''connect'' []] newNetwork))))))) 1
     = Some (Data ''pong'')"
proof -
  let ?s = "netrun [Connect False, Deliver ''connect'' []] newNetwork"
  have f: "fst (emitAndAwaitResponse ''ping'' ''a'' None ?s) = Inr 1"
    by (simp add: network_eval)
  then have h: "emitAndAwaitResponse ''ping'' ''a'' None ?s
     = (Inr 1, snd (emitAndAwaitResponse ''ping'' ''a'' None ?s))"
    by (simp add: prod_eq_iff)
  have r: "defaultResponseEndpoint ''ping'' None = ''ping''"
    by (simp add: defaultResponseEndpoint_def)
  note t = second_call_fails_first_unaltered [OF h, of "''b''" None "''pong''", unfolded r]
  show ?thesis
    using f t by blast
qed

subsection \<open>The registry only grows\<close>

text \<open>
  C6. The entry of an endpoint in the registry of pending calls is never removed. Once
  \<open>emitAndAwaitResponse\<close> on an endpoint has been issued, then after any further
  activity of the session (calls, waits, connection and disconnection, and messages
  arriving, the response to the first call among them) every \<open>emitAndAwaitResponse\<close>
  and every \<open>waitForMessage\<close> on that endpoint fails with "Listener already installed."
\<close>

theorem pending_entry_never_removed:
  assumes "emitAndAwaitResponse e d r s = (Inr p, s1)"
  shows "emitAndAwaitResponse e d2 r2 (netrun ops s1)
           = (Inl (Error ''Listener already installed.''), netrun ops s1)
       \<and> waitForMessage e (netrun ops s1)
           = (Inl (Error ''Listener already installed.''), netrun ops s1)"
proof -
  have "socket s1 \<noteq> None \<and> e \<in> pendingResponses s1"
    using assms by (simp add: emitAndAwaitResponse_success)
  then have "socket (netrun ops s1) \<noteq> None \<and> e \<in> pendingResponses (netrun ops s1)"
    by (rule netrun_keeps)
  then show ?thesis
    by (simp add: already_installed)
qed

theorem pending_entry_never_removed_witness:
  "emitAndAwaitResponse ''ping'' ''a'' None connectedNetwork
     = (Inr 1, snd (emitAndAwaitResponse ''ping'' ''a'' None connectedNetwork))
   \<and> map_of (settled (netrun [Deliver ''ping'' ''pong'']
         (snd (emitAndAwaitResponse ''ping'' ''a'' None connectedNetwork)))) 1
       = Some (Data ''pong'')
   \<and> fst (emitAndAwaitResponse ''ping'' ''b'' None (netrun [Deliver ''ping'' ''pong'']
         (snd (emitAndAwaitResponse ''ping'' ''a'' None connectedNetwork))))
       = Inl (Error ''Listener already installed.'')
   \<and> fst (waitForMessage ''ping'' (netrun [Deliver ''ping'' ''pong'']
         (snd (emitAndAwaitResponse ''ping'' ''a'' None connectedNetwork))))
       = Inl (Error ''Listener already installed.'')"
proof -
  have h1: "emitAndAwaitResponse ''ping'' ''a'' None connectedNetwork
     = (Inr 1, snd (emitAndAwaitResponse ''ping'' ''a'' None connectedNetwork))"
    by (simp add: network_eval)
  have h2: "map_of (settled (netrun [Deliver ''ping'' ''pong'']
         (snd (emitAndAwaitResponse ''ping'' ''a'' None connectedNetwork)))) 1
       = Some (Data ''pong'')"
    by (simp add: network_eval)
  note t = pending_entry_never_removed [OF h1, of "''b''" None "[Deliver ''ping'' ''pong'']"]
  have t1: "fst (emitAndAwaitResponse ''ping'' ''b'' None (netrun [Deliver ''ping'' ''pong'']
         (snd (emitAndAwaitResponse ''ping'' ''a'' None connectedNetwork))))
       = Inl (Error ''Listener already installed.'')"
    using t by (simp only: fst_conv)
  have t2: "fst (waitForMessage ''ping'' (netrun [Deliver ''ping'' ''pong'']
         (snd (emitAndAwaitResponse ''ping'' ''a'' None connectedNetwork))))
       = Inl (Error ''Listener already installed.'')"
    using t by (simp only: fst_conv)
  show ?thesis
    using h1 h2 t1 t2 by blast
qed

subsection \<open>No socket\<close>

text \<open>
  C10. With no socket connection established, \<open>emitAndAwaitResponse\<close> and
  \<open>waitForMessage\<close> both fail at once with the error "No socket installed.", and the
  session, the registry of pending calls in particular, is unchanged: the failed call
  does not occupy its endpoint.
\<close>

theorem no_socket_fails_registry_unchanged:
  assumes "socket s = None"
  shows "emitAndAwaitResponse e d r s = (Inl (Error ''No socket installed.''), s)
       \<and> waitForMessage e s = (Inl (Error ''No socket installed.''), s)
       \<and> pendingResponses (snd (emitAndAwaitResponse e d r s)) = pendingResponses s
       \<and> pendingResponses (snd (waitForMessage e s)) = pendingResponses s"
  using assms by (simp add: emitAndAwaitResponse_def waitForMessage_def)

theorem no_socket_fails_registry_unchanged_witness:
  "socket newNetwork = None
   \<and> emitAndAwaitResponse ''ping'' ''a'' None newNetwork
       = (Inl (Error ''No socket installed.''), newNetwork)
   \<and> waitForMessage ''ping'' newNetwork = (Inl (Error ''No socket installed.''), newNetwork)
   \<and> pendingResponses (snd (emitAndAwaitResponse ''ping'' ''a'' None newNetwork)) = {}
   \<and> pendingResponses (snd (waitForMessage ''ping'' newNetwork)) = {}"
proof -
  have h: "socket newNetwork = None"
    by (simp add: newNetwork_def)
  have e: "pendingResponses newNetwork = {}"
    by (simp add: newNetwork_def)
  show ?thesis
    using no_socket_fails_registry_unchanged [OF h, of "''ping''" "''a''" None] h e
    by simp
qed

section \<open>Properties of the entity action state\<close>

lemma set_update_cases:
  "(k', v') \<in> set (AList.update k v al) \<Longrightarrow> (k', v') \<in> set al \<or> (k' = k \<and> v' = v)"
  by (induction al) (auto split: if_splits)

lemma set_delete_subset: "set (AList.delete k al) \<subseteq> set al"
  by (auto simp add: AList.delete_eq)

lemma noZeroEntry_setAction:
  assumes "\<forall>(k, v) \<in> set (actions e). v \<noteq> 0"
  shows "\<forall>(k, v) \<in> set (actions (setAction a x e)). v \<noteq> 0"
  using assms set_delete_subset [of a "actions e"]
  by (auto simp add: setAction_def sendInput_def dest!: set_update_cases)

lemma noZeroEntry_clearInput: "\<forall>(k, v) \<in> set (actions (clearInput e)). v \<noteq> 0"
  by (simp add: clearInput_def sendInput_def)

lemma noZeroEntry_entitystep:
  assumes "\<forall>(k, v) \<in> set (actions e). v \<noteq> 0"
  shows "\<forall>(k, v) \<in> set (actions (entitystep a e)). v \<noteq> 0"
proof (cases a)
  case (SetAction k x)
  show ?thesis
    unfolding SetAction entitystep.simps using assms by (rule noZeroEntry_setAction)
next
  case ClearInput
  show ?thesis
    unfolding ClearInput entitystep.simps by (rule noZeroEntry_clearInput)
qed

lemma noZeroEntry_entityrun:
  assumes "\<forall>(k, v) \<in> set (actions e). v \<noteq> 0"
  shows "\<forall>(k, v) \<in> set (actions (entityrun ops e)). v \<noteq> 0"
  using assms unfolding entityrun_def
proof (induction ops arbitrary: e)
  case Nil
  then show ?case by simp
next
  case (Cons a ops)
  have "\<forall>(k, v) \<in> set (actions (entitystep a e)). v \<noteq> 0"
    using Cons.prems by (rule noZeroEntry_entitystep)
  then have "\<forall>(k, v) \<in> set (actions (fold entitystep ops (entitystep a e))). v \<noteq> 0"
    by (rule Cons.IH)
  then show ?case by simp
qed

lemma getForce_absent: "map_of (actions e) a = None \<Longrightarrow> getForce \<lparr>binding_id = a\<rparr> e = 0"
  by (simp add: getForce_def truthy_def)

lemmas entity_eval = entityrun_def setAction_def clearInput_def sendInput_def newEntity_def
  getForce_def truthy_def

subsection \<open>Repeated setAction\<close>

text \<open>
  C3, as the code has it. For a non-zero value \<open>v\<close>, calling \<open>setAction(a, v)\<close> twice in
  succession propagates at most once: the second call changes nothing and sends nothing;
  the first call does neither when the stored value is already \<open>v\<close>, and otherwise the
  two calls together call \<open>sendInput\<close> exactly once. The value zero is not recognised
  as a repetition: every \<open>setAction(a, 0)\<close> calls \<open>sendInput\<close>, also when the action is
  absent.
\<close>

theorem setAction_repeat:
  assumes "v \<noteq> 0"
  shows "setAction a v (setAction a v e) = setAction a v e
       \<and> (map_of (actions e) a = Some v \<longrightarrow> setAction a v e = e)
       \<and> (map_of (actions e) a \<noteq> Some v \<longrightarrow>
            length (sentInputs (setAction a v (setAction a v e))) = Suc (length (sentInputs e)))
       \<and> length (sentInputs (setAction a 0 e)) = Suc (length (sentInputs e))"
  using assms
  by (auto simp add: setAction_def sendInput_def truthy_def update_conv' split: option.splits)

theorem setAction_repeat_witness:
  "(0.6::real) \<noteq> 0
   \<and> setAction ''5'' 0.6 (setAction ''5'' 0.6 newEntity) = setAction ''5'' 0.6 newEntity
   \<and> length (sentInputs (setAction ''5'' 0.6 (setAction ''5'' 0.6 newEntity))) = 1
   \<and> length (sentInputs (setAction ''5'' 0 newEntity)) = 1"
proof -
  have h: "(0.6::real) \<noteq> 0" by simp
  note t = setAction_repeat [OF h, of "''5''" newEntity]
  have n: "map_of (actions newEntity) ''5'' \<noteq> Some 0.6"
    by (simp add: newEntity_def)
  have l: "Suc (length (sentInputs newEntity)) = 1"
    by (simp add: newEntity_def)
  have t1: "setAction ''5'' 0.6 (setAction ''5'' 0.6 newEntity) = setAction ''5'' 0.6 newEntity"
    using t by blast
  have t2: "length (sentInputs (setAction ''5'' 0.6 (setAction ''5'' 0.6 newEntity))) = 1"
    using t n unfolding l by blast
  have t3: "length (sentInputs (setAction ''5'' 0 newEntity)) = 1"
    using t unfolding l by blast
  show ?thesis using h t1 t2 t3 by blast
qed

text \<open>
  The claim as it was stated fails for the value zero: on a new entity the action is
  absent, which reads as 0, and still two calls of \<open>setAction\<close> with 0 call \<open>sendInput\<close>
  twice, and already the first one is an observable change.
\<close>

theorem setAction_zero_twice_counterexample:
  "getForce \<lparr>binding_id = ''5''\<rparr> newEntity = 0
   \<and> length (sentInputs (setAction ''5'' 0 (setAction ''5'' 0 newEntity))) = 2
   \<and> setAction ''5'' 0 newEntity \<noteq> newEntity"
  by (simp add: entity_eval)

subsection \<open>No zero is stored\<close>

text \<open>
  C9. After any sequence of \<open>setAction\<close> and \<open>clearInput\<close> the action container of an
  entity holds no entry with the value 0 (it holds none when the sequence starts: the
  constructor makes it empty). An action is a key only while its pressure is not zero,
  and for an absent action \<open>getForce\<close> returns 0; for a present one it returns the
  stored value.
\<close>

theorem actions_hold_no_zero:
  assumes "\<forall>(k, v) \<in> set (actions e). v \<noteq> 0"
  shows "(\<forall>(k, v) \<in> set (actions (entityrun ops e)). v \<noteq> 0)
       \<and> (map_of (actions (entityrun ops e)) a = None
            \<longrightarrow> getForce \<lparr>binding_id = a\<rparr> (entityrun ops e) = 0)
       \<and> (\<forall>v. map_of (actions (entityrun ops e)) a = Some v
            \<longrightarrow> v \<noteq> 0 \<and> getForce \<lparr>binding_id = a\<rparr> (entityrun ops e) = v)"
proof -
  have inv: "\<forall>(k, v) \<in> set (actions (entityrun ops e)). v \<noteq> 0"
    using assms by (rule noZeroEntry_entityrun)
  have "v \<noteq> 0 \<and> getForce \<lparr>binding_id = a\<rparr> (entityrun ops e) = v"
    if "map_of (actions (entityrun ops e)) a = Some v" for v
  proof -
    have "(a, v) \<in> set (actions (entityrun ops e))"
      using that by (rule map_of_SomeD)
    then have "v \<noteq> 0" using inv by auto
    then show ?thesis using that by (simp add: getForce_def truthy_def)
  qed
  then show ?thesis using inv getForce_absent by blast
qed

theorem actions_hold_no_zero_witness:
  "actions newEntity = []
   \<and> actions (entityrun [SetAction ''5'' 1, SetAction ''7'' 0.6, SetAction ''5'' 0] newEntity)
       = [(''7'', 0.6)]
   \<and> getForce \<lparr>binding_id = ''5''\<rparr>
         (entityrun [SetAction ''5'' 1, SetAction ''7'' 0.6, SetAction ''5'' 0] newEntity) = 0
   \<and> getForce \<lparr>binding_id = ''7''\<rparr>
         (entityrun [SetAction ''5'' 1, SetAction ''7'' 0.6, SetAction ''5'' 0] newEntity) = 0.6"
proof -
  have e: "actions newEntity = []"
    by (simp add: newEntity_def)
  have h: "\<forall>(k, v) \<in> set (actions newEntity). v \<noteq> 0"
    by (simp add: e)
  have a: "actions (entityrun [SetAction ''5'' 1, SetAction ''7'' 0.6, SetAction ''5'' 0] newEntity)
       = [(''7'', 0.6)]"
    by (simp add: entity_eval)
  note t5 = actions_hold_no_zero [OF h,
      of "[SetAction ''5'' 1, SetAction ''7'' 0.6, SetAction ''5'' 0]" "''5''"]
  note t7 = actions_hold_no_zero [OF h,
      of "[SetAction ''5'' 1, SetAction ''7'' 0.6, SetAction ''5'' 0]" "''7''"]
  have n5: "map_of (actions (entityrun [SetAction ''5'' 1, SetAction ''7'' 0.6, SetAction ''5'' 0]
         newEntity)) ''5'' = None"
    by (subst a) simp
  have n7: "map_of (actions (entityrun [SetAction ''5'' 1, SetAction ''7'' 0.6, SetAction ''5'' 0]
         newEntity)) ''7'' = Some 0.6"
    by (subst a) simp
  have g5: "getForce \<lparr>binding_id = ''5''\<rparr>
         (entityrun [SetAction ''5'' 1, SetAction ''7'' 0.6, SetAction ''5'' 0] newEntity) = 0"
    using t5 n5 by blast
  have g7: "getForce \<lparr>binding_id = ''7''\<rparr>
         (entityrun [SetAction ''5'' 1, SetAction ''7'' 0.6, SetAction ''5'' 0] newEntity) = 0.6"
    using t7 n7 by blast
  show ?thesis using e a g5 g7 by blast
qed

section \<open>Properties of the controller polling\<close>

subsection \<open>Keys\<close>

lemma digitChar_inj:
  assumes "a < 10" and "b < 10" and "digitChar a = digitChar b"
  shows "a = b"
proof -
  have d: "distinct ''0123456789''" by simp
  have l: "length ''0123456789'' = 10" by simp
  from assms show ?thesis
    unfolding digitChar_def using nth_eq_iff_index_eq [OF d, of a b] l by simp
qed

lemma showNat_nonempty: "showNat n \<noteq> []"
  by (subst showNat.simps) simp

lemma showNat_inj: "showNat n = showNat m \<Longrightarrow> n = m"
proof (induction n arbitrary: m rule: showNat.induct)
  case (1 n)
  show ?case
  proof (cases "n < 10")
    case n: True
    show ?thesis
    proof (cases "m < 10")
      case True
      then show ?thesis
        using "1.prems" n by (simp add: showNat.simps [of n] showNat.simps [of m] digitChar_inj)
    next
      case False
      then show ?thesis
        using "1.prems" n showNat_nonempty [of "m div 10"]
        by (simp add: showNat.simps [of n] showNat.simps [of m])
    qed
  next
    case n: False
    show ?thesis
    proof (cases "m < 10")
      case True
      then show ?thesis
        using "1.prems" n showNat_nonempty [of "n div 10"]
        by (simp add: showNat.simps [of n] showNat.simps [of m])
    next
      case False
      have eq: "showNat (n div 10) = showNat (m div 10)"
        and dg: "digitChar (n mod 10) = digitChar (m mod 10)"
        using "1.prems" n False by (simp_all add: showNat.simps [of n] showNat.simps [of m])
      have "n div 10 = m div 10"
        using "1.IH" [OF n eq] .
      moreover have "n mod 10 = m mod 10"
        using dg by (intro digitChar_inj) simp_all
      ultimately show ?thesis
        by (metis mult_div_mod_eq)
    qed
  qed
qed

lemma axesKey_inj: "axesKey i = axesKey j \<Longrightarrow> i = j"
  by (simp add: axesKey_def showNat_inj)

lemma buttonKey_inj: "buttonKey i = buttonKey j \<Longrightarrow> i = j"
  by (simp add: buttonKey_def showNat_inj)

lemma axesKey_not_buttonKey: "axesKey i \<noteq> buttonKey j"
  by (simp add: axesKey_def buttonKey_def)

text \<open>A loop of assignments under keys that are injective in the index.\<close>

lemma map_of_fold_update_other:
  "\<forall>i \<in> set is. key i \<noteq> k \<Longrightarrow>
     map_of (fold (\<lambda>i inp. AList.update (key i) (f i) inp) is al) k = map_of al k"
  by (induction "is" arbitrary: al) (auto simp add: update_conv')

lemma map_of_fold_update_at:
  assumes "\<And>i j. key i = key j \<Longrightarrow> i = j" and "i \<in> set is"
  shows "map_of (fold (\<lambda>i inp. AList.update (key i) (f i) inp) is al) (key i) = Some (f i)"
  using assms(2)
proof (induction "is" arbitrary: al)
  case Nil
  then show ?case by simp
next
  case (Cons j js)
  show ?case
  proof (cases "i \<in> set js")
    case True
    then show ?thesis using Cons.IH by simp
  next
    case False
    then have ij: "j = i" using Cons.prems by simp
    have "\<forall>i' \<in> set js. key i' \<noteq> key i"
      using False assms(1) by blast
    then show ?thesis
      by (simp add: ij map_of_fold_update_other update_conv')
  qed
qed

lemma distinct_fold_update:
  "distinct (map fst al) \<Longrightarrow>
     distinct (map fst (fold (\<lambda>i inp. AList.update (key i) (f i) inp) is al))"
  by (induction "is" arbitrary: al) (simp_all add: distinct_update)

lemma isOutOfDeadzone_iff:
  "isOutOfDeadzone dz vals = (\<exists>val \<in> set vals. \<bar>val\<bar> > dz)"
proof -
  have "fold (\<lambda>val flag. if \<bar>val\<bar> > dz then True else flag) vals b
          = (b \<or> (\<exists>val \<in> set vals. \<bar>val\<bar> > dz))" for b
    by (induction vals arbitrary: b) auto
  then show ?thesis by (simp add: isOutOfDeadzone_def)
qed

lemma rawFrame_axes:
  assumes "i < length (axes pad)"
  shows "map_of (rawFrame dz pad) (axesKey i)
           = Some (if isOutOfDeadzone dz (axes pad) then - (axes pad ! i) else 0)"
proof -
  have "map_of (rawFrame dz pad) (axesKey i)
          = map_of (axesLoop (isOutOfDeadzone dz (axes pad)) (axes pad) []) (axesKey i)"
    unfolding rawFrame_def buttonsLoop_def
    by (rule map_of_fold_update_other) (simp add: axesKey_not_buttonKey [symmetric])
  also have "\<dots> = Some (if isOutOfDeadzone dz (axes pad) then - (axes pad ! i) else 0)"
    unfolding axesLoop_def using assms
    by (intro map_of_fold_update_at axesKey_inj) simp_all
  finally show ?thesis .
qed

lemma rawFrame_axes_absent:
  assumes "\<not> i < length (axes pad)"
  shows "map_of (rawFrame dz pad) (axesKey i) = None"
proof -
  have "map_of (rawFrame dz pad) (axesKey i)
          = map_of (axesLoop (isOutOfDeadzone dz (axes pad)) (axes pad) []) (axesKey i)"
    unfolding rawFrame_def buttonsLoop_def
    by (rule map_of_fold_update_other) (simp add: axesKey_not_buttonKey [symmetric])
  also have "\<dots> = map_of [] (axesKey i)"
    unfolding axesLoop_def using assms
    by (intro map_of_fold_update_other) (auto dest: axesKey_inj)
  finally show ?thesis by simp
qed

lemma rawFrame_button:
  assumes "i < length (buttons pad)"
  shows "map_of (rawFrame dz pad) (buttonKey i)
           = Some (if \<bar>buttons pad ! i\<bar> > dz then buttons pad ! i else 0)"
  unfolding rawFrame_def buttonsLoop_def using assms
  by (intro map_of_fold_update_at buttonKey_inj) simp_all

lemma distinct_rawFrame: "distinct (map fst (rawFrame dz pad))"
  unfolding rawFrame_def buttonsLoop_def axesLoop_def
  by (intro distinct_fold_update) simp

subsection \<open>Dropping repeated zeros\<close>

lemma map_of_fold_delete:
  "map_of (fold (\<lambda>key inp. if map_of inp key = Some 0 \<and> \<not> previousHadValue prev key
                              then AList.delete key inp else inp) ks inp) k
     = (if k \<in> set ks \<and> map_of inp k = Some 0 \<and> \<not> previousHadValue prev k
        then None else map_of inp k)"
  by (induction ks arbitrary: inp) (auto simp add: delete_conv')

lemma map_of_dropRepeatedZeros:
  "map_of (dropRepeatedZeros prev inp) k
     = (if map_of inp k = Some 0 \<and> \<not> previousHadValue prev k then None else map_of inp k)"
proof -
  have "k \<in> set (map fst inp)" if "map_of inp k = Some 0"
    using that by (metis map_of_eq_None_iff option.distinct(1) set_map)
  then show ?thesis
    unfolding dropRepeatedZeros_def map_of_fold_delete by auto
qed

lemma distinct_dropRepeatedZeros:
  assumes "distinct (map fst inp)"
  shows "distinct (map fst (dropRepeatedZeros prev inp))"
proof -
  have "distinct (map fst (fold (\<lambda>key inp. if map_of inp key = Some 0 \<and> \<not> previousHadValue prev key
                              then AList.delete key inp else inp) ks al))"
    if "distinct (map fst al)" for ks al
    using that by (induction ks arbitrary: al) (simp_all add: distinct_delete)
  then show ?thesis
    unfolding dropRepeatedZeros_def using assms by blast
qed

lemma filter_key_absent:
  "k \<notin> fst ` set al \<Longrightarrow> filter (\<lambda>(k', _). k' = k) al = []"
  by (induction al) auto

lemma filter_key_distinct:
  "distinct (map fst al) \<Longrightarrow> map_of al k = Some v \<Longrightarrow>
     filter (\<lambda>(k', _). k' = k) al = [(k, v)]"
proof (induction al)
  case Nil
  then show ?case by simp
next
  case (Cons a al)
  obtain k' v' where a: "a = (k', v')" by (cases a)
  show ?case
  proof (cases "k' = k")
    case True
    then have "k \<notin> fst ` set al" using Cons.prems(1) a by simp
    then have "filter (\<lambda>(k', _). k' = k) al = []"
      by (rule filter_key_absent)
    then show ?thesis using Cons.prems(2) a True by simp
  next
    case False
    then show ?thesis using Cons a by simp
  qed
qed

lemma getRawControllerInput_polling:
  assumes "hasController c"
  shows "getRawControllerInput pad c =
           (dropRepeatedZeros (previousInput c) (rawFrame (movementDeadzone c) pad),
            c\<lparr>previousInput :=
                 dropRepeatedZeros (previousInput c) (rawFrame (movementDeadzone c) pad)\<rparr>)"
  using assms by (simp add: getRawControllerInput_def Let_def)

lemmas controls_eval = getRawControllerInput_def dropRepeatedZeros_def rawFrame_def
  buttonsLoop_def axesLoop_def isOutOfDeadzone_def previousHadValue_def truthy_def
  newControls_def startPollingController_def pollingControls_def axesKey_def buttonKey_def
  showNat.simps digitChar_def registerEntity_def Let_def

subsection \<open>Edge suppression\<close>

text \<open>
  C4. Take two consecutive polling ticks of \<open>getRawControllerInput\<close> while a controller
  is connected, and any key of the frame, button or axis. If the value computed for the
  key is 0 on both ticks, the set emitted by the second tick has no entry for the key.
  If the value goes from a non-zero one (0.6, say) to 0, the second tick emits exactly
  one entry for the key, and its value is 0.
\<close>

theorem edge_suppression:
  assumes "hasController c"
    and "getRawControllerInput pad1 c = (out1, c1)"
    and "getRawControllerInput pad2 c1 = (out2, c2)"
  shows "(map_of (rawFrame (movementDeadzone c) pad1) key = Some 0
            \<and> map_of (rawFrame (movementDeadzone c1) pad2) key = Some 0
          \<longrightarrow> map_of out2 key = None \<and> filter (\<lambda>(k, _). k = key) out2 = [])
       \<and> (\<forall>v. map_of (rawFrame (movementDeadzone c) pad1) key = Some v \<and> v \<noteq> 0
            \<and> map_of (rawFrame (movementDeadzone c1) pad2) key = Some 0
          \<longrightarrow> filter (\<lambda>(k, _). k = key) out2 = [(key, 0)])"
proof -
  let ?dz = "movementDeadzone c"
  have out1: "out1 = dropRepeatedZeros (previousInput c) (rawFrame ?dz pad1)"
    and c1: "c1 = c\<lparr>previousInput := out1\<rparr>"
    using assms(2) getRawControllerInput_polling [OF assms(1), of pad1] by auto
  have poll: "hasController c1" and dz: "movementDeadzone c1 = ?dz"
    and prev: "previousInput c1 = out1"
    using assms(1) c1 by simp_all
  have out2: "out2 = dropRepeatedZeros out1 (rawFrame ?dz pad2)"
    using assms(3) getRawControllerInput_polling [OF poll, of pad2] dz prev by auto
  have dist: "distinct (map fst out2)"
    unfolding out2 by (intro distinct_dropRepeatedZeros distinct_rawFrame)
  have zero: "map_of out2 key = None \<and> filter (\<lambda>(k, _). k = key) out2 = []"
    if f1: "map_of (rawFrame ?dz pad1) key = Some 0"
      and f2: "map_of (rawFrame ?dz pad2) key = Some 0"
  proof -
    have "\<not> previousHadValue out1 key"
      unfolding out1 previousHadValue_def map_of_dropRepeatedZeros using f1
      by (simp add: truthy_def)
    then have n: "map_of out2 key = None"
      unfolding out2 map_of_dropRepeatedZeros using f2 by simp
    then have "key \<notin> fst ` set out2"
      by (simp add: map_of_eq_None_iff)
    then have "filter (\<lambda>(k, _). k = key) out2 = []"
      by (rule filter_key_absent)
    then show ?thesis using n by simp
  qed
  have edge: "filter (\<lambda>(k, _). k = key) out2 = [(key, 0)]"
    if f1: "map_of (rawFrame ?dz pad1) key = Some v" and v: "v \<noteq> 0"
      and f2: "map_of (rawFrame ?dz pad2) key = Some 0" for v
  proof -
    have "map_of out1 key = Some v"
      unfolding out1 map_of_dropRepeatedZeros using f1 v by simp
    then have "previousHadValue out1 key"
      using v by (simp add: previousHadValue_def truthy_def)
    then have "map_of out2 key = Some 0"
      unfolding out2 map_of_dropRepeatedZeros using f2 by simp
    with dist show ?thesis by (rule filter_key_distinct)
  qed
  show ?thesis
    using zero edge unfolding dz by blast
qed

theorem edge_suppression_witness:
  "hasController pollingControls
   \<and> map_of (rawFrame (movementDeadzone pollingControls) \<lparr>axes = [], buttons = [0.6, 0]\<rparr>)
         ''button1'' = Some 0
   \<and> map_of (rawFrame (movementDeadzone pollingControls) \<lparr>axes = [], buttons = [0.6, 0]\<rparr>)
         ''button0'' = Some 0.6
   \<and> map_of (fst (getRawControllerInput \<lparr>axes = [], buttons = [0, 0]\<rparr>
         (snd (getRawControllerInput \<lparr>axes = [], buttons = [0.6, 0]\<rparr> pollingControls))))
         ''button1'' = None
   \<and> filter (\<lambda>(k, _). k = ''button0'')
         (fst (getRawControllerInput \<lparr>axes = [], buttons = [0, 0]\<rparr>
           (snd (getRawControllerInput \<lparr>axes = [], buttons = [0.6, 0]\<rparr> pollingControls))))
       = [(''button0'', 0)]"
proof -
  let ?pad1 = "\<lparr>axes = [], buttons = [0.6, 0]\<rparr>"
  let ?pad2 = "\<lparr>axes = [], buttons = [0, 0]\<rparr>"
  let ?c1 = "snd (getRawControllerInput ?pad1 pollingControls)"
  have h0: "hasController pollingControls"
    by (simp add: controls_eval)
  have h1: "getRawControllerInput ?pad1 pollingControls
              = (fst (getRawControllerInput ?pad1 pollingControls), ?c1)"
    by simp
  have h2: "getRawControllerInput ?pad2 ?c1
              = (fst (getRawControllerInput ?pad2 ?c1), snd (getRawControllerInput ?pad2 ?c1))"
    by simp
  have a1: "map_of (rawFrame (movementDeadzone pollingControls) ?pad1) ''button1'' = Some 0"
    by (simp add: controls_eval)
  have a2: "map_of (rawFrame (movementDeadzone ?c1) ?pad2) ''button1'' = Some 0"
    by (simp add: controls_eval)
  have b1: "map_of (rawFrame (movementDeadzone pollingControls) ?pad1) ''button0'' = Some 0.6"
    by (simp add: controls_eval)
  have b2: "map_of (rawFrame (movementDeadzone ?c1) ?pad2) ''button0'' = Some 0"
    by (simp add: controls_eval)
  have nz: "(0.6::real) \<noteq> 0"
    by simp
  have r1: "map_of (fst (getRawControllerInput ?pad2 ?c1)) ''button1'' = None"
    using edge_suppression [OF h0 h1 h2, of "''button1''"] a1 a2 by blast
  have r2: "filter (\<lambda>(k, _). k = ''button0'') (fst (getRawControllerInput ?pad2 ?c1))
              = [(''button0'', 0)]"
    using edge_suppression [OF h0 h1 h2, of "''button0''"] b1 b2 nz by blast
  show ?thesis
    using h0 a1 b1 r1 r2 by blast
qed

subsection \<open>Deadzone\<close>

text \<open>
  C5, as the code has it. In a polling tick in which the magnitude of every axis is at
  most the movement deadzone, \<open>getRawControllerInput\<close> emits no axis entry with a
  non-zero value, whatever the signs of the axes. It emits an entry for an axis, with
  the value 0, exactly when the set emitted by the previous tick held a non-zero value
  for that axis: the single transition into zero. In particular it emits no axis entry
  when the previous tick emitted none.
\<close>

theorem deadzone_axes_zero_transition_only:
  assumes "hasController c"
    and "\<forall>val \<in> set (axes pad). \<bar>val\<bar> \<le> movementDeadzone c"
  shows "map_of (fst (getRawControllerInput pad c)) (axesKey i)
           = (if i < length (axes pad) \<and> previousHadValue (previousInput c) (axesKey i)
              then Some 0 else None)"
proof -
  have out: "\<not> isOutOfDeadzone (movementDeadzone c) (axes pad)"
    using assms(2) by (auto simp add: isOutOfDeadzone_iff)
  show ?thesis
  proof (cases "i < length (axes pad)")
    case True
    then have "map_of (rawFrame (movementDeadzone c) pad) (axesKey i) = Some 0"
      using out by (simp add: rawFrame_axes)
    then show ?thesis
      using True by (simp add: getRawControllerInput_polling [OF assms(1)] map_of_dropRepeatedZeros)
  next
    case False
    then have "map_of (rawFrame (movementDeadzone c) pad) (axesKey i) = None"
      by (rule rawFrame_axes_absent)
    then show ?thesis
      using False by (simp add: getRawControllerInput_polling [OF assms(1)] map_of_dropRepeatedZeros)
  qed
qed

theorem deadzone_axes_zero_transition_only_witness:
  "hasController (snd (getRawControllerInput \<lparr>axes = [0.9, 0], buttons = []\<rparr> pollingControls))
   \<and> \<bar>0.1::real\<bar> \<le> movementDeadzone pollingControls
   \<and> \<bar>- 0.2::real\<bar> \<le> movementDeadzone pollingControls
   \<and> map_of (fst (getRawControllerInput \<lparr>axes = [0.1, - 0.2], buttons = []\<rparr>
         (snd (getRawControllerInput \<lparr>axes = [0.9, 0], buttons = []\<rparr> pollingControls))))
         (axesKey 0) = Some 0
   \<and> map_of (fst (getRawControllerInput \<lparr>axes = [0.1, - 0.2], buttons = []\<rparr>
         (snd (getRawControllerInput \<lparr>axes = [0.9, 0], buttons = []\<rparr> pollingControls))))
         (axesKey 1) = None"
proof -
  let ?pad1 = "\<lparr>axes = [0.9, 0], buttons = []\<rparr>"
  let ?pad2 = "\<lparr>axes = [0.1, - 0.2], buttons = []\<rparr>"
  let ?c1 = "snd (getRawControllerInput ?pad1 pollingControls)"
  have h0: "hasController ?c1"
    by (simp add: controls_eval)
  have d1: "\<bar>0.1::real\<bar> \<le> movementDeadzone pollingControls"
    and d2: "\<bar>- 0.2::real\<bar> \<le> movementDeadzone pollingControls"
    by (simp_all add: controls_eval)
  have h1: "\<forall>val \<in> set (axes ?pad2). \<bar>val\<bar> \<le> movementDeadzone ?c1"
    by (simp add: controls_eval)
  have p0: "previousHadValue (previousInput ?c1) (axesKey 0)"
    by (simp add: controls_eval)
  have p1: "\<not> previousHadValue (previousInput ?c1) (axesKey 1)"
    by (simp add: controls_eval)
  have r0: "map_of (fst (getRawControllerInput ?pad2 ?c1)) (axesKey 0) = Some 0"
    using deadzone_axes_zero_transition_only [OF h0 h1, of 0] p0 by simp
  have r1: "map_of (fst (getRawControllerInput ?pad2 ?c1)) (axesKey 1) = None"
    using deadzone_axes_zero_transition_only [OF h0 h1, of 1] p1 by simp
  show ?thesis
    using h0 d1 d2 r0 r1 by blast
qed

text \<open>
  The claim as it was stated fails in the tick after a stick was pushed: every axis is
  now within the deadzone of 0.5, and the set emitted holds the axis entry \<open>axes0\<close>
  with the value 0.
\<close>

theorem deadzone_axis_entry_counterexample:
  "\<bar>0.1::real\<bar> \<le> 0.5
   \<and> movementDeadzone pollingControls = 0.5
   \<and> fst (getRawControllerInput \<lparr>axes = [0.1], buttons = []\<rparr>
         (snd (getRawControllerInput \<lparr>axes = [0.9], buttons = []\<rparr> pollingControls)))
       = [(''axes0'', 0)]"
  by (simp add: controls_eval)

subsection \<open>Registration\<close>

text \<open>
  C8 asks that registering an entity without an action container be reported and
  skipped. The report is made, but the method does not return after it: the entity
  without actions is added to the registered entities all the same, and for no entity
  at all the read of \<open>entity.uuid\<close> throws.
\<close>

theorem registerEntity_without_actions_registers:
  "registerEntity (Some \<lparr>uuid = ''u1'', actionContainer = None\<rparr>) (newControls 0.5)
     = (None, (newControls 0.5)
          \<lparr>registeredEntities := [(''u1'', \<lparr>uuid = ''u1'', actionContainer = None\<rparr>)],
           consoleErrors := [''Must pass in an entity'']\<rparr>)
   \<and> fst (registerEntity None (newControls 0.5)) = Some TypeError"
  by (simp add: registerEntity_def newControls_def)

section \<open>Properties of the plain HTTP calls\<close>

lemmas http_eval = createGetRequest_def createPostRequest_def createDeleteRequest_def
  createError_def parseTable_def goneBody_def

text \<open>
  C7, as the code has it. When the request has loaded and its body parses, the GET and
  DELETE calls resolve with the parsed body on status 200 only, and the POST call on
  status 200 or 304. On status 304 the GET and DELETE calls reject; on any status other
  than 200 and 304 all three reject. The error of a rejection carries the \<open>message\<close>
  field of the parsed body when the body is an object, and the raw body text when the
  body does not parse.
\<close>

theorem http_calls_by_status:
  "(status req = 200 \<and> parse (responseText req) = Some j \<longrightarrow>
      createGetRequest parse Load req = Resolved j
      \<and> createPostRequest parse Load req = Resolved j
      \<and> createDeleteRequest parse Load req = Resolved j)
   \<and> (status req = 304 \<and> parse (responseText req) = Some j \<longrightarrow>
      createPostRequest parse Load req = Resolved j)
   \<and> (status req = 304 \<longrightarrow>
      createGetRequest parse Load req = Rejected (createError parse req)
      \<and> createDeleteRequest parse Load req = Rejected (createError parse req))
   \<and> (status req \<noteq> 200 \<and> status req \<noteq> 304 \<longrightarrow>
      createGetRequest parse Load req = Rejected (createError parse req)
      \<and> createPostRequest parse Load req = Rejected (createError parse req)
      \<and> createDeleteRequest parse Load req = Rejected (createError parse req))
   \<and> (\<forall>props. parse (responseText req) = Some (JObj props) \<longrightarrow>
      createError parse req = HttpError (map_of props ''message''))
   \<and> (parse (responseText req) = None \<longrightarrow>
      createError parse req = HttpError (Some (JStr (responseText req))))"
  by (simp add: createGetRequest_def createPostRequest_def createDeleteRequest_def
      createError_def)

theorem http_calls_by_status_witness:
  "createGetRequest parseTable Load \<lparr>status = 200, responseText = ''{}''\<rparr> = Resolved (JObj [])
   \<and> createPostRequest parseTable Load \<lparr>status = 304, responseText = ''{}''\<rparr> = Resolved (JObj [])
   \<and> createDeleteRequest parseTable Load \<lparr>status = 304, responseText = ''{}''\<rparr>
       = Rejected (HttpError None)
   \<and> createGetRequest parseTable Load \<lparr>status = 404, responseText = goneBody\<rparr>
       = Rejected (HttpError (Some (JStr ''gone'')))
   \<and> createPostRequest parseTable Load \<lparr>status = 500, responseText = ''Internal Server Error''\<rparr>
       = Rejected (HttpError (Some (JStr ''Internal Server Error'')))"
proof -
  let ?ok = "\<lparr>status = 200, responseText = ''{}''\<rparr>"
  let ?notModified = "\<lparr>status = 304, responseText = ''{}''\<rparr>"
  let ?gone = "\<lparr>status = 404, responseText = goneBody\<rparr>"
  let ?broken = "\<lparr>status = 500, responseText = ''Internal Server Error''\<rparr>"
  have s: "status ?ok = 200" "status ?notModified = 304"
    "status ?gone \<noteq> 200 \<and> status ?gone \<noteq> 304"
    "status ?broken \<noteq> 200 \<and> status ?broken \<noteq> 304"
    by simp_all
  have p: "parseTable (responseText ?ok) = Some (JObj [])"
    "parseTable (responseText ?notModified) = Some (JObj [])"
    "parseTable (responseText ?gone) = Some (JObj [(''message'', JStr ''gone'')])"
    "parseTable (responseText ?broken) = None"
    by (simp_all add: parseTable_def goneBody_def)
  have m: "map_of [(''message'', JStr ''gone'')] ''message'' = Some (JStr ''gone'')"
    "map_of [] ''message'' = (None :: json option)"
    "responseText ?broken = ''Internal Server Error''"
    by simp_all
  have e1: "createError parseTable ?notModified = HttpError None"
    using http_calls_by_status [of ?notModified parseTable] p(2) m(2) by metis
  have e2: "createError parseTable ?gone = HttpError (Some (JStr ''gone''))"
    using http_calls_by_status [of ?gone parseTable] p(3) m(1) by metis
  have e3: "createError parseTable ?broken = HttpError (Some (JStr ''Internal Server Error''))"
    using http_calls_by_status [of ?broken parseTable] p(4) m(3) by metis
  have r1: "createGetRequest parseTable Load ?ok = Resolved (JObj [])"
    using http_calls_by_status [of ?ok parseTable "JObj []"] s(1) p(1) by blast
  have r2: "createPostRequest parseTable Load ?notModified = Resolved (JObj [])"
    using http_calls_by_status [of ?notModified parseTable "JObj []"] s(2) p(2) by blast
  have r3: "createDeleteRequest parseTable Load ?notModified = Rejected (HttpError None)"
    using http_calls_by_status [of ?notModified parseTable] s(2) e1 by metis
  have r4: "createGetRequest parseTable Load ?gone = Rejected (HttpError (Some (JStr ''gone'')))"
    using http_calls_by_status [of ?gone parseTable] s(3) e2 by metis
  have r5: "createPostRequest parseTable Load ?broken
              = Rejected (HttpError (Some (JStr ''Internal Server Error'')))"
    using http_calls_by_status [of ?broken parseTable] s(4) e3 by metis
  show ?thesis
    using r1 r2 r3 r4 r5 by blast
qed

text \<open>
  The claim as it was stated gives 304 to GET. In the code it is POST that takes 304 for
  a success: a GET that comes back with 304 rejects, and a POST that comes back with 304
  resolves.
\<close>

theorem get_304_rejects_counterexample:
  "createGetRequest parseTable Load \<lparr>status = 304, responseText = ''{}''\<rparr>
     = Rejected (HttpError None)
   \<and> createPostRequest parseTable Load \<lparr>status = 304, responseText = ''{}''\<rparr>
     = Resolved (JObj [])"
  by (simp add: http_eval)

section \<open>Properties of the physics snapshots\<close>

subsection \<open>Reading back what \<open>toFixed\<close> wrote\<close>





















subsection \<open>Round trip\<close>





end
